theory Spec2Isabelle
  imports Complex_Main "HOL-Library.Stream"
begin

section \<open>The craps simulator of \<open>Lab 01 Craps/craps.py\<close>\<close>

subsection \<open>The world the program runs in\<close>

text \<open>
  The program reads one thing, the pseudo-random generator, and writes one thing, the
  terminal. The generator is the infinite stream of the values that the successive calls
  \<^verbatim>\<open>random.randint(1, sides)\<close> will return; the terminal is the list of the
  \<^verbatim>\<open>print\<close> calls made so far, each one kept as the list of its arguments.

  A \<open>string\<close> is a Python \<^verbatim>\<open>str\<close> whose code points are all below 256, a \<open>char\<close>
  being one code point. A \<open>pyfloat\<close> is a Python \<^verbatim>\<open>float\<close> that is a finite number: its
  sign, and its magnitude as the exact rational that the double stands for. The sign is kept
  apart because Python tells \<^verbatim>\<open>-0.0\<close> from \<^verbatim>\<open>0.0\<close>.
\<close>

datatype pyfloat = Float (negative: bool) (magnitude: rat)

datatype pyval = Str string | Num int | Flt pyfloat

record world =
  dice :: "int stream"
  out :: "pyval list list"

text \<open>
  The exceptions the program can raise. None is caught anywhere in the file, so a raised
  exception leaves \<^verbatim>\<open>main\<close> as it is.
\<close>

datatype error = ZeroDivisionError | OverflowError | ValueError

definition print :: "pyval list \<Rightarrow> world \<Rightarrow> world" where
  "print args w = w\<lparr>out := out w @ [args]\<rparr>"

definition randint :: "int \<Rightarrow> int \<Rightarrow> world \<Rightarrow> int \<times> world" where
  "randint a b w = (shd (dice w), w\<lparr>dice := stl (dice w)\<rparr>)"

subsection \<open>Rolling the dice\<close>

definition tab :: char where
  "tab = CHR 0x09"

definition newline :: char where
  "newline = CHR 0x0A"

definition roll2 :: "bool \<Rightarrow> world \<Rightarrow> int \<times> world" where
  "roll2 verbose w0 =
     (let sides = 6;
          (throw1, w1) = randint 1 sides w0;
          (throw2, w2) = randint 1 sides w1;
          sum = throw1 + throw2;
          w3 = (if verbose
                then print [Str (tab # ''Threw''), Num throw1, Str ''+'', Num throw2,
                            Str ''='', Num sum] w2
                else w2)
      in (sum, w3))"

definition comeOut :: "bool \<Rightarrow> world \<Rightarrow> int \<times> world" where
  "comeOut verbose w0 =
     (let w1 = (if verbose then print [Str ''Phase I, the Come Out''] w0 else w0);
          (target, w2) = roll2 verbose w1;
          w3 = (if verbose then print [Str (tab # ''Target established:''), Num target] w2
                else w2)
      in (target, w3))"

subsection \<open>Phase II\<close>

text \<open>
  The \<^verbatim>\<open>while\<close> loop of \<^verbatim>\<open>point\<close> has no bound: it is a partial function, and
  \<open>None\<close> is the run that never leaves the loop. The source's variable \<^verbatim>\<open>total\<close> is
  \<open>tot\<close> here.
\<close>

partial_function (option) point_loop ::
  "int \<Rightarrow> bool \<Rightarrow> int \<Rightarrow> world \<Rightarrow> (int \<times> world) option" where
  "point_loop target verbose tot w =
     (if tot \<noteq> 7 \<and> tot \<noteq> target
      then point_loop target verbose (fst (roll2 verbose w)) (snd (roll2 verbose w))
      else Some (tot, w))"

definition point :: "int \<Rightarrow> bool \<Rightarrow> world \<Rightarrow> (bool \<times> world) option" where
  "point target verbose w0 =
     (let w1 = (if verbose then print [Str ''Phase II, the Point''] w0 else w0);
          (tot0, w2) = roll2 verbose w1
      in Option.bind (point_loop target verbose tot0 w2)
           (\<lambda>(tot, w3). let win = (tot = target) in Some (win, w3)))"

subsection \<open>One game\<close>

definition playToReplay :: "bool \<Rightarrow> world \<Rightarrow> (bool \<times> world) option" where
  "playToReplay verbose w0 =
     (let (target, w1) = comeOut verbose w0 in
      if target = 7 \<or> target = 11 then
        (let w2 = (if verbose
                   then print [Str ''A natural! You've won the game, but must yield the dice to the next player.''] w1
                   else w1)
         in Some (False, w2))
      else if target = 2 \<or> target = 3 \<or> target = 12 then
        (let w2 = (if verbose then print [Str ''You've crapped out, but may play again.''] w1
                   else w1)
         in Some (True, w2))
      else
        Option.bind (point target verbose w1)
          (\<lambda>(replay, w2).
             let w3 = (if verbose then
                         (if replay
                          then print [Str ''A pass! You've won the game, and may play again.''] w2
                          else print [Str ''You've sevened out, and must yield the dice to the next player.''] w2)
                       else w2)
             in Some (replay, w3)))"

definition playToWin :: "bool \<Rightarrow> world \<Rightarrow> (bool \<times> world) option" where
  "playToWin verbose w0 =
     (let (target, w1) = comeOut verbose w0 in
      if target = 7 \<or> target = 11 then
        (let w2 = (if verbose
                   then print [Str ''A natural! You've won the game, but must yield the dice to the next player.''] w1
                   else w1)
         in Some (True, w2))
      else if target = 2 \<or> target = 3 \<or> target = 12 then
        (let w2 = (if verbose then print [Str ''You've crapped out, but may play again.''] w1
                   else w1)
         in Some (False, w2))
      else
        Option.bind (point target verbose w1)
          (\<lambda>(win, w2).
             let w3 = (if verbose then
                         (if win
                          then print [Str ''A pass! You've won the game, and may play again.''] w2
                          else print [Str ''You've sevened out, and must yield the dice to the next player.''] w2)
                       else w2)
             in Some (win, w3)))"

subsection \<open>The test loop\<close>

partial_function (option) test_loop :: "bool \<Rightarrow> world \<Rightarrow> world option" where
  "test_loop replay w =
     (if replay
      then Option.bind (playToReplay True (print [Str (newline # ''Playing again...'')] w))
             (\<lambda>r. test_loop (fst r) (snd r))
      else Some w)"

definition test :: "world \<Rightarrow> world option" where
  "test w0 =
     (let w1 = print [Str ''Welcome to the craps table.''] w0
      in Option.bind (playToReplay True w1) (\<lambda>(replay, w2). test_loop replay w2))"

subsection \<open>The odds\<close>

text \<open>
  The quotient \<^verbatim>\<open>a / b\<close> of two Python integers is a float: the double nearest to the
  fraction, a tie going to the even mantissa. With a zero divisor the division raises
  \<^verbatim>\<open>ZeroDivisionError\<close>, and with a quotient too large for a double
  \<^verbatim>\<open>OverflowError\<close>. The sign of the result is that of the fraction, a zero dividend
  counting as positive, so that \<^verbatim>\<open>0 / -3\<close> is \<^verbatim>\<open>-0.0\<close>.

  \<open>bit_length\<close> is Python's \<^verbatim>\<open>int.bit_length\<close>. For positive \<open>x\<close> and \<open>y\<close>,
  \<open>float_exponent x y\<close> is the \<open>e\<close> with \<open>2 ^ e \<le> x / y < 2 ^ (e + 1)\<close>. A double with that
  exponent has 53 bits, so its last bit is worth \<open>2 ^ (e - 52)\<close>; below \<open>2 ^ - 1022\<close> the
  doubles are spaced \<open>2 ^ - 1074\<close> apart. \<open>round_quotient x y\<close> is the multiple of that unit
  nearest to \<open>x / y\<close>.
\<close>

fun bit_length :: "nat \<Rightarrow> nat" where
  "bit_length n = (if n = 0 then 0 else Suc (bit_length (n div 2)))"

declare bit_length.simps [simp del]

definition float_exponent :: "nat \<Rightarrow> nat \<Rightarrow> int" where
  "float_exponent x y =
     (let d = int (bit_length x) - int (bit_length y)
      in if y * 2 ^ nat d \<le> x * 2 ^ nat (- d) then d else d - 1)"

definition round_quotient :: "nat \<Rightarrow> nat \<Rightarrow> rat" where
  "round_quotient x y =
     (let e = max (float_exponent x y) (- 1022);
          s = e - 52;
          n = x * 2 ^ nat (- s);
          d = y * 2 ^ nat s;
          q = n div d;
          r = n mod d;
          m = (if 2 * r < d \<or> (2 * r = d \<and> even q) then q else q + 1)
      in of_nat m * 2 ^ nat s / 2 ^ nat (- s))"

definition truediv :: "int \<Rightarrow> int \<Rightarrow> error + pyfloat" where
  "truediv a b =
     (if b = 0 then Inl ZeroDivisionError
      else
        (let negate = ((a < 0) \<noteq> (b < 0));
             m = round_quotient (nat \<bar>a\<bar>) (nat \<bar>b\<bar>)
         in if 2 ^ 1024 \<le> m then Inl OverflowError else Inr (Float negate m)))"

text \<open>
  \<^verbatim>\<open>for game in range(numGames)\<close> runs \<open>nat numGames\<close> times: no time at all when
  \<open>numGames\<close> is zero or negative.
\<close>

fun odds_loop :: "nat \<Rightarrow> int \<Rightarrow> world \<Rightarrow> (int \<times> world) option" where
  "odds_loop 0 wins w = Some (wins, w)"
| "odds_loop (Suc n) wins w =
     Option.bind (playToWin False w)
       (\<lambda>(win, w'). odds_loop n (if win = True then wins + 1 else wins) w')"

definition computeOdds :: "int \<Rightarrow> world \<Rightarrow> ((error + pyfloat) \<times> world) option" where
  "computeOdds numGames w0 =
     Option.bind (odds_loop (nat numGames) 0 w0)
       (\<lambda>(wins, w1).
          case truediv wins numGames of
            Inl e \<Rightarrow> Some (Inl e, w1)
          | Inr odds \<Rightarrow>
              (let w2 = print [Str (newline # ''Out of''), Num numGames, Str ''games:''] w1;
                   w3 = print [Str (tab # ''Wins:''), Num wins] w2;
                   w4 = print [Str (tab # ''Odds:''), Flt odds] w3
               in Some (Inr odds, w4)))"

subsection \<open>The command line\<close>

text \<open>
  Python's built-in \<^verbatim>\<open>int\<close> applied to a string. White space around the literal is
  dropped: the code points 9 to 13 and 32, and beyond ASCII 0x85 and 0xA0. One sign may
  come first, and the digits \<^verbatim>\<open>0\<close> to \<^verbatim>\<open>9\<close> may be separated by single underscores.
  A literal of more than \<open>int_max_str_digits\<close> digits is refused: 4300 unless the
  interpreter is told otherwise, which this program does not do. Every refusal is a
  \<^verbatim>\<open>ValueError\<close>. No code point from 128 to 255 is a decimal digit.
\<close>

definition isspace :: "char \<Rightarrow> bool" where
  "isspace c = (let n = (of_char c :: nat) in (9 \<le> n \<and> n \<le> 13) \<or> n = 32 \<or> n = 133 \<or> n = 160)"

definition int_max_str_digits :: nat where
  "int_max_str_digits = 4300"

definition digit :: "char \<Rightarrow> int option" where
  "digit c = (let n = (of_char c :: nat) in if 48 \<le> n \<and> n \<le> 57 then Some (int n - 48) else None)"

fun digits :: "int \<Rightarrow> string \<Rightarrow> int option" where
  "digits acc [] = Some acc"
| "digits acc (c # cs) =
     (case digit c of
        Some v \<Rightarrow> digits (10 * acc + v) cs
      | None \<Rightarrow>
          (if c = CHR ''_'' then
             (case cs of
                [] \<Rightarrow> None
              | d # ds \<Rightarrow> (case digit d of None \<Rightarrow> None | Some v \<Rightarrow> digits (10 * acc + v) ds))
           else None))"

definition strip :: "string \<Rightarrow> string" where
  "strip s = rev (dropWhile isspace (rev (dropWhile isspace s)))"

definition int_of_str :: "string \<Rightarrow> error + int" where
  "int_of_str s =
     (let t = strip s;
          (neg, body) = (case t of
                           [] \<Rightarrow> (False, t)
                         | c # r \<Rightarrow> if c = CHR ''-'' then (True, r)
                                    else if c = CHR ''+'' then (False, r) else (False, t))
      in case body of
           [] \<Rightarrow> Inl ValueError
         | c # cs \<Rightarrow>
             (case digit c of
                None \<Rightarrow> Inl ValueError
              | Some v \<Rightarrow>
                  (case digits v cs of
                     None \<Rightarrow> Inl ValueError
                   | Some n \<Rightarrow>
                       if length (filter (\<lambda>c. c \<noteq> CHR ''_'') body) > int_max_str_digits
                       then Inl ValueError
                       else Inr (if neg then - n else n))))"

text \<open>
  \<^verbatim>\<open>main\<close> returns nothing; what is left of a run is the terminal and, when an exception
  escapes, the exception. The values returned by \<^verbatim>\<open>playToWin\<close> and
  \<^verbatim>\<open>computeOdds\<close> are dropped, as the source drops them.
\<close>

definition main :: "string list \<Rightarrow> world \<Rightarrow> ((error + unit) \<times> world) option" where
  "main args w0 =
     (if length args > 1 then
        (if args ! 1 = ''test'' then
           map_option (\<lambda>w1. (Inr (), w1)) (test w0)
         else if args ! 1 = ''odds'' then
           (let numGames = 1000 in
            if length args > 2 then
              (case int_of_str (args ! 2) of
                 Inl e \<Rightarrow> Some (Inl e, w0)
               | Inr numGames \<Rightarrow>
                   map_option (\<lambda>(r, w1). (map_sum id (\<lambda>odds. ()) r, w1)) (computeOdds numGames w0))
            else
              map_option (\<lambda>(r, w1). (map_sum id (\<lambda>odds. ()) r, w1)) (computeOdds numGames w0))
         else Some (Inr (), w0))
      else
        map_option (\<lambda>(win, w1). (Inr (), w1)) (playToWin True w0))"

subsection \<open>Reading a run off the generator\<close>

text \<open>
  The rest of this section is not code of the program: it names what the statements below
  talk about. Every call of \<^verbatim>\<open>roll2\<close> takes the next two values of the generator, so
  the \<open>k\<close>-th roll made from a stream \<open>d\<close> has the sum \<open>roll_sum d k\<close> and, when verbose,
  prints the line \<open>threw d k\<close>.
\<close>

definition roll_sum :: "int stream \<Rightarrow> nat \<Rightarrow> int" where
  "roll_sum d k = d !! (2 * k) + d !! (2 * k + 1)"

definition threw :: "int stream \<Rightarrow> nat \<Rightarrow> pyval list" where
  "threw d k = [Str (tab # ''Threw''), Num (d !! (2 * k)), Str ''+'', Num (d !! (2 * k + 1)),
                Str ''='', Num (roll_sum d k)]"

text \<open>
  Given that roll \<open>m\<close> ends Phase II (its sum is 7 or the target), \<open>first_stop d target m\<close>
  is the first roll that does: the number of leading rolls, among the first \<open>m\<close>, that are
  neither 7 nor the target.
\<close>

definition first_stop :: "int stream \<Rightarrow> int \<Rightarrow> nat \<Rightarrow> nat" where
  "first_stop d target m =
     length (takeWhile (\<lambda>k. roll_sum d k \<noteq> 7 \<and> roll_sum d k \<noteq> target) [0..<m])"

text \<open>
  The results of \<open>n\<close> silent games played one after the other, each starting with the
  generator as the game before left it; \<open>None\<close> when one of them never ends.
\<close>

fun games :: "nat \<Rightarrow> world \<Rightarrow> (bool list \<times> world) option" where
  "games 0 w = Some ([], w)"
| "games (Suc n) w =
     Option.bind (playToWin False w)
       (\<lambda>(win, w'). Option.bind (games n w') (\<lambda>(rs, w''). Some (win # rs, w'')))"

section \<open>Properties\<close>

subsection \<open>Rolls\<close>

lemma roll2_fst: "fst (roll2 v w) = roll_sum (dice w) 0"
  by (simp add: roll2_def randint_def roll_sum_def Let_def)

lemma roll2_snd:
  "snd (roll2 v w) = w\<lparr>dice := stl (stl (dice w)), out := out w @ (if v then [threw (dice w) 0] else [])\<rparr>"
  by (simp add: roll2_def randint_def roll_sum_def threw_def print_def Let_def)

lemma roll_sum_stl: "roll_sum (stl (stl d)) k = roll_sum d (Suc k)"
  by (simp add: roll_sum_def)

lemma threw_stl: "threw (stl (stl d)) k = threw d (Suc k)"
  by (simp add: threw_def roll_sum_stl)

lemma sdrop_pair: "sdrop (2 * Suc n) d = sdrop (2 * n) (stl (stl d))"
  by simp

lemma map_threw_stl: "map (threw (stl (stl d))) [0..<n] = map (threw d) [Suc 0..<Suc n]"
  by (simp add: threw_stl map_Suc_upt[symmetric] del: upt_Suc)

lemma threw_Cons:
  "threw d 0 # map (threw (stl (stl d))) [0..<m] = map (threw d) [0..<Suc m]"
proof -
  have "[0..<Suc m] = 0 # [Suc 0..<Suc m]"
    by (rule upt_conv_Cons) simp
  then show ?thesis
    by (simp only: map_threw_stl list.map)
qed

lemma point_loop_stop: "tot = 7 \<or> tot = target \<Longrightarrow> point_loop target v tot w = Some (tot, w)"
  by (subst point_loop.simps) auto

lemma point_loop_step:
  "tot \<noteq> 7 \<Longrightarrow> tot \<noteq> target \<Longrightarrow>
   point_loop target v tot w = point_loop target v (fst (roll2 v w)) (snd (roll2 v w))"
  by (subst point_loop.simps) simp

lemma point_loop_first_hit:
  assumes "tot \<noteq> 7" "tot \<noteq> target"
    and "\<forall>k<n. roll_sum (dice w) k \<noteq> 7 \<and> roll_sum (dice w) k \<noteq> target"
    and "roll_sum (dice w) n = 7 \<or> roll_sum (dice w) n = target"
  shows "point_loop target v tot w =
         Some (roll_sum (dice w) n,
               w\<lparr>dice := sdrop (2 * Suc n) (dice w),
                 out := out w @ (if v then map (threw (dice w)) [0..<Suc n] else [])\<rparr>)"
  using assms
proof (induction n arbitrary: tot w)
  case 0
  then show ?case
    by (simp add: point_loop_step roll2_fst roll2_snd point_loop_stop numeral_2_eq_2)
next
  case (Suc n)
  let ?w = "snd (roll2 v w)"
  have d: "dice ?w = stl (stl (dice w))" by (simp add: roll2_snd)
  have a: "roll_sum (dice w) 0 \<noteq> 7" "roll_sum (dice w) 0 \<noteq> target"
    using Suc.prems(3) by auto
  have b: "\<forall>k<n. roll_sum (dice ?w) k \<noteq> 7 \<and> roll_sum (dice ?w) k \<noteq> target"
    using Suc.prems(3) by (simp add: d roll_sum_stl)
  have c: "roll_sum (dice ?w) n = 7 \<or> roll_sum (dice ?w) n = target"
    using Suc.prems(4) by (simp add: d roll_sum_stl)
  have "point_loop target v tot w = point_loop target v (roll_sum (dice w) 0) ?w"
    using Suc.prems(1,2) by (simp add: point_loop_step roll2_fst)
  also have "\<dots> = Some (roll_sum (dice ?w) n,
               ?w\<lparr>dice := sdrop (2 * Suc n) (dice ?w),
                 out := out ?w @ (if v then map (threw (dice ?w)) [0..<Suc n] else [])\<rparr>)"
    by (rule Suc.IH[OF a b c])
  also have "\<dots> = Some (roll_sum (dice w) (Suc n),
               w\<lparr>dice := sdrop (2 * Suc (Suc n)) (dice w),
                 out := out w @ (if v then map (threw (dice w)) [0..<Suc (Suc n)] else [])\<rparr>)"
    by (simp add: roll2_snd roll_sum_stl threw_Cons sdrop_pair
          del: upt_Suc mult_Suc_right)
  finally show ?case .
qed

lemma point_first_hit:
  assumes "\<forall>k<n. roll_sum (dice w) k \<noteq> 7 \<and> roll_sum (dice w) k \<noteq> target"
    and "roll_sum (dice w) n = 7 \<or> roll_sum (dice w) n = target"
  shows "point target v w =
         Some (roll_sum (dice w) n = target,
               w\<lparr>dice := sdrop (2 * Suc n) (dice w),
                 out := out w @ (if v then [Str ''Phase II, the Point''] # map (threw (dice w)) [0..<Suc n]
                                 else [])\<rparr>)"
proof (cases n)
  case 0
  with assms(2) show ?thesis
    by (simp add: point_def print_def Let_def split_beta roll2_fst roll2_snd point_loop_stop
        numeral_2_eq_2)
next
  case (Suc m)
  let ?w1 = "if v then print [Str ''Phase II, the Point''] w else w"
  let ?w2 = "snd (roll2 v ?w1)"
  have d1: "dice ?w1 = dice w" by (simp add: print_def)
  have d: "dice ?w2 = stl (stl (dice w))" by (simp add: roll2_snd print_def)
  have a: "roll_sum (dice w) 0 \<noteq> 7" "roll_sum (dice w) 0 \<noteq> target"
    using assms(1) Suc by auto
  have b: "\<forall>k<m. roll_sum (dice ?w2) k \<noteq> 7 \<and> roll_sum (dice ?w2) k \<noteq> target"
    using assms(1) Suc by (simp only: d roll_sum_stl) auto
  have c: "roll_sum (dice ?w2) m = 7 \<or> roll_sum (dice ?w2) m = target"
    using assms(2) Suc by (simp only: d roll_sum_stl)
  have l: "point_loop target v (roll_sum (dice w) 0) ?w2 =
        Some (roll_sum (dice ?w2) m,
              ?w2\<lparr>dice := sdrop (2 * Suc m) (dice ?w2),
                   out := out ?w2 @ (if v then map (threw (dice ?w2)) [0..<Suc m] else [])\<rparr>)"
    by (rule point_loop_first_hit[OF a b c])
  have "point target v w =
        Option.bind (point_loop target v (roll_sum (dice w) 0) ?w2)
          (\<lambda>(tot, w3). Some (tot = target, w3))"
    by (simp add: point_def Let_def split_beta roll2_fst d1)
  also have "\<dots> = Some (roll_sum (dice ?w2) m = target,
              ?w2\<lparr>dice := sdrop (2 * Suc m) (dice ?w2),
                   out := out ?w2 @ (if v then map (threw (dice ?w2)) [0..<Suc m] else [])\<rparr>)"
    by (simp only: l) simp
  also have "\<dots> = Some (roll_sum (dice w) n = target,
               w\<lparr>dice := sdrop (2 * Suc n) (dice w),
                 out := out w @ (if v then [Str ''Phase II, the Point''] # map (threw (dice w)) [0..<Suc n]
                                 else [])\<rparr>)"
    unfolding Suc
    by (simp add: roll2_snd print_def roll_sum_stl threw_Cons sdrop_pair
          del: upt_Suc mult_Suc_right)
  finally show ?thesis .
qed

lemma point_loop_returns_hit:
  assumes "point_loop target v tot w = Some y"
  shows "tot = 7 \<or> tot = target \<or>
         (\<exists>n. roll_sum (dice w) n = 7 \<or> roll_sum (dice w) n = target)"
proof (rule point_loop.raw_induct[where P = "\<lambda>target v tot w y. tot = 7 \<or> tot = target \<or>
         (\<exists>n. roll_sum (dice w) n = 7 \<or> roll_sum (dice w) n = target)", OF _ assms])
  fix loop :: "int \<Rightarrow> bool \<Rightarrow> int \<Rightarrow> world \<Rightarrow> (int \<times> world) option"
  fix target v tot w y
  assume IH: "\<And>target v tot w y. loop target v tot w = Some y \<Longrightarrow>
                tot = 7 \<or> tot = target \<or>
                (\<exists>n. roll_sum (dice w) n = 7 \<or> roll_sum (dice w) n = target)"
  assume eq: "(if tot \<noteq> 7 \<and> tot \<noteq> target
               then loop target v (fst (roll2 v w)) (snd (roll2 v w))
               else Some (tot, w)) = Some y"
  show "tot = 7 \<or> tot = target \<or>
        (\<exists>n. roll_sum (dice w) n = 7 \<or> roll_sum (dice w) n = target)"
  proof (cases "tot \<noteq> 7 \<and> tot \<noteq> target")
    case False
    then show ?thesis by auto
  next
    case True
    with eq have "loop target v (fst (roll2 v w)) (snd (roll2 v w)) = Some y"
      by simp
    from IH[OF this] have
      "roll_sum (dice w) 0 = 7 \<or> roll_sum (dice w) 0 = target \<or>
       (\<exists>n. roll_sum (stl (stl (dice w))) n = 7 \<or> roll_sum (stl (stl (dice w))) n = target)"
      by (simp add: roll2_fst roll2_snd)
    then show ?thesis
      by (simp only: roll_sum_stl) blast
  qed
qed

lemma point_returns_hit:
  assumes "point target v w = Some y"
  shows "\<exists>n. roll_sum (dice w) n = 7 \<or> roll_sum (dice w) n = target"
proof -
  let ?w1 = "if v then print [Str ''Phase II, the Point''] w else w"
  let ?w2 = "snd (roll2 v ?w1)"
  have d1: "dice ?w1 = dice w" by (simp add: print_def)
  have d: "dice ?w2 = stl (stl (dice w))" by (simp add: roll2_snd print_def)
  from assms obtain z where "point_loop target v (roll_sum (dice w) 0) ?w2 = Some z"
    by (auto simp: point_def Let_def split_beta roll2_fst d1 bind_eq_Some_conv)
  from point_loop_returns_hit[OF this]
  have "roll_sum (dice w) 0 = 7 \<or> roll_sum (dice w) 0 = target \<or>
        (\<exists>n. roll_sum (dice w) (Suc n) = 7 \<or> roll_sum (dice w) (Suc n) = target)"
    by (simp only: d roll_sum_stl)
  then show ?thesis by blast
qed

lemma first_hit_exists:
  assumes "\<exists>n. roll_sum d n = 7 \<or> roll_sum d n = target"
  shows "\<exists>n. (\<forall>k<n. roll_sum d k \<noteq> 7 \<and> roll_sum d k \<noteq> target) \<and>
              (roll_sum d n = 7 \<or> roll_sum d n = target)"
proof -
  let ?P = "\<lambda>n. roll_sum d n = 7 \<or> roll_sum d n = target"
  from assms obtain m where "?P m" by blast
  then have "?P (LEAST n. ?P n)" by (rule LeastI)
  moreover have "\<forall>k<LEAST n. ?P n. \<not> ?P k"
    using not_less_Least by blast
  ultimately show ?thesis by blast
qed

lemma point_diverges:
  "(\<forall>n. roll_sum (dice w) n \<noteq> 7 \<and> roll_sum (dice w) n \<noteq> target) \<Longrightarrow> point target v w = None"
  using point_returns_hit[of target v w] by (cases "point target v w") auto

lemma first_stop_le: "first_stop d target m \<le> m"
  unfolding first_stop_def using length_takeWhile_le[of _ "[0..<m]"] by simp

lemma first_stop_before:
  assumes "k < first_stop d target m"
  shows "roll_sum d k \<noteq> 7 \<and> roll_sum d k \<noteq> target"
proof -
  let ?P = "\<lambda>k. roll_sum d k \<noteq> 7 \<and> roll_sum d k \<noteq> target"
  let ?ys = "takeWhile ?P [0..<m]"
  have k: "k < length ?ys" using assms by (simp add: first_stop_def)
  then have "?ys ! k \<in> set ?ys" by (rule nth_mem)
  then have "?P (?ys ! k)" by (rule set_takeWhileD[THEN conjunct2])
  moreover have "?ys ! k = [0..<m] ! k" using k by (rule takeWhile_nth)
  moreover have "k < m" using assms first_stop_le[of d target m] by simp
  ultimately show ?thesis by simp
qed

lemma first_stop_hit:
  assumes "roll_sum d m = 7 \<or> roll_sum d m = target"
  shows "roll_sum d (first_stop d target m) = 7 \<or> roll_sum d (first_stop d target m) = target"
proof (cases "first_stop d target m < m")
  case True
  let ?P = "\<lambda>k. roll_sum d k \<noteq> 7 \<and> roll_sum d k \<noteq> target"
  from True have "length (takeWhile ?P [0..<m]) < length [0..<m]"
    by (simp add: first_stop_def)
  then have "\<not> ?P ([0..<m] ! length (takeWhile ?P [0..<m]))"
    by (rule nth_length_takeWhile)
  with True show ?thesis by (simp add: first_stop_def)
next
  case False
  with first_stop_le[of d target m] have "first_stop d target m = m" by simp
  with assms show ?thesis by simp
qed

lemma comeOut_eq:
  "comeOut v w =
     (roll_sum (dice w) 0,
      w\<lparr>dice := stl (stl (dice w)),
        out := out w @ (if v then [[Str ''Phase I, the Come Out''], threw (dice w) 0,
                                    [Str (tab # ''Target established:''), Num (roll_sum (dice w) 0)]]
                        else [])\<rparr>)"
  by (simp add: comeOut_def Let_def split_beta roll2_fst roll2_snd print_def)

lemma bind_keeps_dice:
  assumes "\<And>r w2. dice (f r w2) = dice w2"
  shows "map_option (apsnd dice) (Option.bind m (\<lambda>(r, w2). Some (r, f r w2))) =
         map_option (apsnd dice) m"
  using assms by (cases m) (auto simp: apsnd_def map_prod_def)

lemma point_indep:
  "map_option (apsnd dice) (point target v (w\<lparr>out := o1\<rparr>)) =
   map_option (apsnd dice) (point target v' (w\<lparr>out := o2\<rparr>))"
proof (cases "\<exists>n. roll_sum (dice w) n = 7 \<or> roll_sum (dice w) n = target")
  case True
  from first_hit_exists[OF this] obtain n where
    n: "\<forall>k<n. roll_sum (dice w) k \<noteq> 7 \<and> roll_sum (dice w) k \<noteq> target"
       "roll_sum (dice w) n = 7 \<or> roll_sum (dice w) n = target"
    by blast
  show ?thesis
    using n by (simp add: point_first_hit[where n = n])
next
  case False
  then have "\<forall>n. roll_sum (dice w) n \<noteq> 7 \<and> roll_sum (dice w) n \<noteq> target" by blast
  then show ?thesis
    by (simp add: point_diverges)
qed

lemma playToWin_indep:
  "map_option (apsnd dice) (playToWin v w) = map_option (apsnd dice) (playToWin v' w)"
proof -
  have "map_option (apsnd dice) (playToWin u w) =
        (if roll_sum (dice w) 0 = 7 \<or> roll_sum (dice w) 0 = 11
         then Some (True, stl (stl (dice w)))
         else if roll_sum (dice w) 0 = 2 \<or> roll_sum (dice w) 0 = 3 \<or> roll_sum (dice w) 0 = 12
         then Some (False, stl (stl (dice w)))
         else map_option (apsnd dice)
                (point (roll_sum (dice w) 0) False (w\<lparr>dice := stl (stl (dice w)), out := []\<rparr>)))" for u
    unfolding playToWin_def comeOut_eq Let_def prod.case
    apply (simp only: if_distrib[of "map_option (apsnd dice)"] cong: if_cong)
    apply (subst bind_keeps_dice)
     apply (simp add: print_def)
    using point_indep[where target = "roll_sum (dice w) 0" and v = u
        and w = "w\<lparr>dice := stl (stl (dice w))\<rparr>" and v' = False and ?o2.0 = "[]"]
    apply (simp add: print_def)
    done
  then show ?thesis by simp
qed

subsection \<open>Phase II ends at the first 7 or target\<close>

lemma point_at_first_stop:
  assumes "roll_sum (dice w) m = 7 \<or> roll_sum (dice w) m = target"
  shows "point target v w =
         Some (roll_sum (dice w) (first_stop (dice w) target m) = target,
               w\<lparr>dice := sdrop (2 * Suc (first_stop (dice w) target m)) (dice w),
                 out := out w @ (if v then [Str ''Phase II, the Point''] #
                                    map (threw (dice w)) [0..<Suc (first_stop (dice w) target m)]
                                 else [])\<rparr>)"
  by (rule point_first_hit) (use assms first_stop_before first_stop_hit in blast)+

text \<open>
  Claim C2. Take a target among 4, 5, 6, 8, 9, 10 and a generator whose roll \<open>m\<close> has the
  sum 7 or the target. Then \<^verbatim>\<open>point\<close> returns. With \<open>n\<close> the first such roll, every
  roll before \<open>n\<close> is neither 7 nor the target and is rolled past, roll \<open>n\<close> is the last one
  made (the generator is left after \<open>2 * (n + 1)\<close> values, and a verbose run has printed
  exactly the rolls \<open>0..n\<close>), and the result is true when the sum of roll \<open>n\<close> is the
  target and false when it is 7.
\<close>

theorem point_stops_at_first_seven_or_target:
  assumes "target \<in> {4, 5, 6, 8, 9, 10}"
    and "roll_sum (dice w) m = 7 \<or> roll_sum (dice w) m = target"
  shows "let n = first_stop (dice w) target m in
           (\<forall>k<n. roll_sum (dice w) k \<noteq> 7 \<and> roll_sum (dice w) k \<noteq> target) \<and>
           (roll_sum (dice w) n = 7 \<or> roll_sum (dice w) n = target) \<and>
           point target verbose w =
             Some (roll_sum (dice w) n = target,
                   w\<lparr>dice := sdrop (2 * Suc n) (dice w),
                     out := out w @ (if verbose
                                     then [Str ''Phase II, the Point''] # map (threw (dice w)) [0..<Suc n]
                                     else [])\<rparr>) \<and>
           (roll_sum (dice w) n = 7 \<longrightarrow> roll_sum (dice w) n \<noteq> target)"
proof -
  have "target \<noteq> 7" using assms(1) by auto
  then show ?thesis
    unfolding Let_def
    using first_stop_before[of _ "dice w" target m] first_stop_hit[OF assms(2)]
      point_at_first_stop[OF assms(2), of verbose]
    by simp
qed

theorem point_stops_at_first_seven_or_target_witness:
  "(4::int) \<in> {4, 5, 6, 8, 9, 10} \<and>
   roll_sum (dice \<lparr>dice = [2, 3, 1, 3] @- sconst 1, out = []\<rparr>) 1 = 4 \<and>
   first_stop (dice \<lparr>dice = [2, 3, 1, 3] @- sconst 1, out = []\<rparr>) 4 1 = 1 \<and>
   point 4 True \<lparr>dice = [2, 3, 1, 3] @- sconst 1, out = []\<rparr> =
     Some (True, \<lparr>dice = sconst 1,
                  out = [[Str ''Phase II, the Point''],
                         [Str (tab # ''Threw''), Num 2, Str ''+'', Num 3, Str ''='', Num 5],
                         [Str (tab # ''Threw''), Num 1, Str ''+'', Num 3, Str ''='', Num 4]]\<rparr>)"
proof -
  let ?w = "\<lparr>dice = [2, 3, 1, 3] @- sconst 1, out = []\<rparr>"
  have h1: "(4::int) \<in> {4, 5, 6, 8, 9, 10}" by simp
  have h2: "roll_sum (dice ?w) 1 = 7 \<or> roll_sum (dice ?w) 1 = 4"
    by (simp add: roll_sum_def eval_nat_numeral)
  have n: "first_stop (dice ?w) 4 1 = 1"
    by (simp add: first_stop_def roll_sum_def)
  note t = point_stops_at_first_seven_or_target[OF h1 h2, of True, unfolded Let_def n]
  from t have "point 4 True ?w =
      Some (roll_sum (dice ?w) 1 = 4,
            ?w\<lparr>dice := sdrop (2 * Suc 1) (dice ?w),
               out := out ?w @ (if True
                                then [Str ''Phase II, the Point''] # map (threw (dice ?w)) [0..<Suc 1]
                                else [])\<rparr>)"
    by (elim conjE)
  then have "point 4 True ?w =
     Some (True, \<lparr>dice = sconst 1,
                  out = [[Str ''Phase II, the Point''],
                         [Str (tab # ''Threw''), Num 2, Str ''+'', Num 3, Str ''='', Num 5],
                         [Str (tab # ''Threw''), Num 1, Str ''+'', Num 3, Str ''='', Num 4]]\<rparr>)"
    by (simp add: roll_sum_def threw_def eval_nat_numeral)
  moreover have "roll_sum (dice ?w) 1 = 4"
    by (simp add: roll_sum_def eval_nat_numeral)
  ultimately show ?thesis
    using h1 n by simp
qed

subsection \<open>The come-out roll decides naturals and craps\<close>

text \<open>
  Claim C3. When the come-out roll sums to 7 or 11, \<^verbatim>\<open>playToWin\<close> returns true, and it
  does so without Phase II: the run has taken the two values of the come-out roll from the
  generator and nothing more, and a verbose run has printed the come-out lines and the
  message of the natural, and nothing more.
\<close>

theorem natural_wins_at_once:
  assumes "fst (comeOut verbose w) = 7 \<or> fst (comeOut verbose w) = 11"
  shows "playToWin verbose w =
         Some (True,
               w\<lparr>dice := stl (stl (dice w)),
                 out := out w @
                   (if verbose
                    then [[Str ''Phase I, the Come Out''], threw (dice w) 0,
                          [Str (tab # ''Target established:''), Num (fst (comeOut verbose w))],
                          [Str ''A natural! You've won the game, but must yield the dice to the next player.'']]
                    else [])\<rparr>)"
  using assms
  by (auto simp add: playToWin_def comeOut_eq print_def)

theorem natural_wins_at_once_witness:
  "fst (comeOut True \<lparr>dice = [3, 4] @- sconst 1, out = []\<rparr>) = 7 \<and>
   playToWin True \<lparr>dice = [3, 4] @- sconst 1, out = []\<rparr> =
     Some (True,
           \<lparr>dice = sconst 1,
            out = [[Str ''Phase I, the Come Out''],
                   [Str (tab # ''Threw''), Num 3, Str ''+'', Num 4, Str ''='', Num 7],
                   [Str (tab # ''Target established:''), Num 7],
                   [Str ''A natural! You've won the game, but must yield the dice to the next player.'']]\<rparr>)"
proof -
  let ?w = "\<lparr>dice = [3, 4] @- sconst 1, out = []\<rparr>"
  have c: "fst (comeOut True ?w) = 7"
    by (simp add: comeOut_eq roll_sum_def)
  then have h: "fst (comeOut True ?w) = 7 \<or> fst (comeOut True ?w) = 11" ..
  show ?thesis
    using c natural_wins_at_once[OF h] by (simp add: threw_def roll_sum_def)
qed

text \<open>
  Claim C4. When the come-out roll sums to 2, 3 or 12, \<^verbatim>\<open>playToWin\<close> returns false, and it
  does so without Phase II: the run has taken the two values of the come-out roll from the
  generator and nothing more, and a verbose run has printed the come-out lines and the
  message of the crap-out, and nothing more.
\<close>

theorem craps_lose_at_once:
  assumes "fst (comeOut verbose w) = 2 \<or> fst (comeOut verbose w) = 3 \<or> fst (comeOut verbose w) = 12"
  shows "playToWin verbose w =
         Some (False,
               w\<lparr>dice := stl (stl (dice w)),
                 out := out w @
                   (if verbose
                    then [[Str ''Phase I, the Come Out''], threw (dice w) 0,
                          [Str (tab # ''Target established:''), Num (fst (comeOut verbose w))],
                          [Str ''You've crapped out, but may play again.'']]
                    else [])\<rparr>)"
  using assms
  by (auto simp add: playToWin_def comeOut_eq print_def)

theorem craps_lose_at_once_witness:
  "fst (comeOut True \<lparr>dice = [6, 6] @- sconst 1, out = []\<rparr>) = 12 \<and>
   playToWin True \<lparr>dice = [6, 6] @- sconst 1, out = []\<rparr> =
     Some (False,
           \<lparr>dice = sconst 1,
            out = [[Str ''Phase I, the Come Out''],
                   [Str (tab # ''Threw''), Num 6, Str ''+'', Num 6, Str ''='', Num 12],
                   [Str (tab # ''Target established:''), Num 12],
                   [Str ''You've crapped out, but may play again.'']]\<rparr>)"
proof -
  let ?w = "\<lparr>dice = [6, 6] @- sconst 1, out = []\<rparr>"
  have c: "fst (comeOut True ?w) = 12"
    by (simp add: comeOut_eq roll_sum_def)
  then have h: "fst (comeOut True ?w) = 2 \<or> fst (comeOut True ?w) = 3 \<or> fst (comeOut True ?w) = 12"
    by simp
  show ?thesis
    using c craps_lose_at_once[OF h] by (simp add: threw_def roll_sum_def)
qed

subsection \<open>The degenerate target 7\<close>

lemma point_seven_never_loses: "point 7 verbose w \<noteq> Some (False, w')"
proof
  assume r: "point 7 verbose w = Some (False, w')"
  from point_returns_hit[OF r] obtain m where "roll_sum (dice w) m = 7"
    by blast
  then have m: "roll_sum (dice w) m = 7 \<or> roll_sum (dice w) m = 7" by simp
  from first_stop_hit[OF m] have "roll_sum (dice w) (first_stop (dice w) 7 m) = 7"
    by simp
  with point_at_first_stop[OF m, of verbose] r show False
    by simp
qed

text \<open>
  Claim C10. Called with the target 7, \<^verbatim>\<open>point\<close> returns true at the first roll whose sum
  is 7: given that roll \<open>m\<close> sums to 7 and \<open>n\<close> is the first roll that does, no roll before
  \<open>n\<close> sums to 7, roll \<open>n\<close> is the last one made, and the result is true. No run with this
  target returns false.
\<close>

theorem point_seven_wins_at_first_seven:
  "(roll_sum (dice w) m = 7 \<longrightarrow>
      (let n = first_stop (dice w) 7 m in
         (\<forall>k<n. roll_sum (dice w) k \<noteq> 7) \<and> roll_sum (dice w) n = 7 \<and>
         point 7 verbose w =
           Some (True,
                 w\<lparr>dice := sdrop (2 * Suc n) (dice w),
                   out := out w @ (if verbose
                                   then [Str ''Phase II, the Point''] # map (threw (dice w)) [0..<Suc n]
                                   else [])\<rparr>))) \<and>
   point 7 verbose w \<noteq> Some (False, w')"
proof (intro conjI impI)
  assume "roll_sum (dice w) m = 7"
  then have m: "roll_sum (dice w) m = 7 \<or> roll_sum (dice w) m = 7" by simp
  from first_stop_hit[OF m] have h: "roll_sum (dice w) (first_stop (dice w) 7 m) = 7"
    by simp
  show "let n = first_stop (dice w) 7 m in
         (\<forall>k<n. roll_sum (dice w) k \<noteq> 7) \<and> roll_sum (dice w) n = 7 \<and>
         point 7 verbose w =
           Some (True,
                 w\<lparr>dice := sdrop (2 * Suc n) (dice w),
                   out := out w @ (if verbose
                                   then [Str ''Phase II, the Point''] # map (threw (dice w)) [0..<Suc n]
                                   else [])\<rparr>)"
    unfolding Let_def
    using first_stop_before[of _ "dice w" 7 m] h point_at_first_stop[OF m, of verbose]
    by simp
next
  show "point 7 verbose w \<noteq> Some (False, w')"
    by (rule point_seven_never_loses)
qed

theorem point_seven_wins_at_first_seven_witness:
  "roll_sum (dice \<lparr>dice = [2, 3, 1, 6] @- sconst 1, out = []\<rparr>) 1 = 7 \<and>
   first_stop (dice \<lparr>dice = [2, 3, 1, 6] @- sconst 1, out = []\<rparr>) 7 1 = 1 \<and>
   point 7 False \<lparr>dice = [2, 3, 1, 6] @- sconst 1, out = []\<rparr> =
     Some (True, \<lparr>dice = sconst 1, out = []\<rparr>) \<and>
   point 7 False \<lparr>dice = [2, 3, 1, 6] @- sconst 1, out = []\<rparr> \<noteq>
     Some (False, \<lparr>dice = sconst 1, out = []\<rparr>)"
proof -
  let ?w = "\<lparr>dice = [2, 3, 1, 6] @- sconst 1, out = []\<rparr>"
  have h: "roll_sum (dice ?w) 1 = 7"
    by (simp add: roll_sum_def eval_nat_numeral)
  have n: "first_stop (dice ?w) 7 1 = 1"
    by (simp add: first_stop_def roll_sum_def)
  note t = point_seven_wins_at_first_seven[of ?w 1 False "\<lparr>dice = sconst 1, out = []\<rparr>",
      unfolded Let_def n]
  from t h have "point 7 False ?w =
      Some (True,
            ?w\<lparr>dice := sdrop (2 * Suc 1) (dice ?w),
               out := out ?w @ (if False
                                then [Str ''Phase II, the Point''] # map (threw (dice ?w)) [0..<Suc 1]
                                else [])\<rparr>)"
    by (elim conjE impE)
  then have "point 7 False ?w = Some (True, \<lparr>dice = sconst 1, out = []\<rparr>)"
    by (simp add: eval_nat_numeral)
  moreover from t have "point 7 False ?w \<noteq> Some (False, \<lparr>dice = sconst 1, out = []\<rparr>)"
    by (elim conjE)
  ultimately show ?thesis
    using h n by simp
qed

subsection \<open>The two variants of a game\<close>

lemma bind_keeps_fst:
  "map_option fst (Option.bind m (\<lambda>(r, w2). Some (r, f r w2))) = map_option fst m"
  by (cases m) auto

lemma playToWin_point_phase:
  assumes "comeOut verbose w = (target, w1)"
    and "target \<noteq> 7" "target \<noteq> 11" "target \<noteq> 2" "target \<noteq> 3" "target \<noteq> 12"
  shows "map_option fst (playToWin verbose w) = map_option fst (point target verbose w1)"
  using assms(2-)
  unfolding playToWin_def assms(1) Let_def prod.case
  by (simp only: if_False simp_thms bind_keeps_fst)

lemma playToReplay_point_phase:
  assumes "comeOut verbose w = (target, w1)"
    and "target \<noteq> 7" "target \<noteq> 11" "target \<noteq> 2" "target \<noteq> 3" "target \<noteq> 12"
  shows "map_option fst (playToReplay verbose w) = map_option fst (point target verbose w1)"
  using assms(2-)
  unfolding playToReplay_def assms(1) Let_def prod.case
  by (simp only: if_False simp_thms bind_keeps_fst)

text \<open>
  Claim C1. Let the come-out roll of a game sum to \<open>target\<close> and leave the world \<open>w1\<close>.
  If \<open>target\<close> is 2, 3 or 12, \<^verbatim>\<open>playToReplay\<close> returns true and \<^verbatim>\<open>playToWin\<close> returns
  false. If it is 7 or 11, \<^verbatim>\<open>playToReplay\<close> returns false and \<^verbatim>\<open>playToWin\<close> returns
  true. For every other sum, each of the two returns the boolean that \<^verbatim>\<open>point\<close> returns
  for that target on the rolls that follow, and does not return when \<^verbatim>\<open>point\<close> does not.
\<close>

theorem replay_and_win_agree:
  assumes "comeOut verbose w = (target, w1)"
  shows "(target \<in> {2, 3, 12} \<longrightarrow>
            map_option fst (playToReplay verbose w) = Some True \<and>
            map_option fst (playToWin verbose w) = Some False) \<and>
         (target \<in> {7, 11} \<longrightarrow>
            map_option fst (playToReplay verbose w) = Some False \<and>
            map_option fst (playToWin verbose w) = Some True) \<and>
         (target \<notin> {2, 3, 12} \<and> target \<notin> {7, 11} \<longrightarrow>
            map_option fst (playToReplay verbose w) = map_option fst (point target verbose w1) \<and>
            map_option fst (playToWin verbose w) = map_option fst (point target verbose w1))"
proof (intro conjI impI)
  assume "target \<in> {2, 3, 12}"
  then show "map_option fst (playToReplay verbose w) = Some True"
    by (auto simp add: playToReplay_def assms)
next
  assume "target \<in> {2, 3, 12}"
  then show "map_option fst (playToWin verbose w) = Some False"
    by (auto simp add: playToWin_def assms)
next
  assume "target \<in> {7, 11}"
  then show "map_option fst (playToReplay verbose w) = Some False"
    by (auto simp add: playToReplay_def assms)
next
  assume "target \<in> {7, 11}"
  then show "map_option fst (playToWin verbose w) = Some True"
    by (auto simp add: playToWin_def assms)
next
  assume "target \<notin> {2, 3, 12} \<and> target \<notin> {7, 11}"
  then show "map_option fst (playToReplay verbose w) = map_option fst (point target verbose w1)"
    by (intro playToReplay_point_phase[OF assms]) auto
next
  assume "target \<notin> {2, 3, 12} \<and> target \<notin> {7, 11}"
  then show "map_option fst (playToWin verbose w) = map_option fst (point target verbose w1)"
    by (intro playToWin_point_phase[OF assms]) auto
qed

theorem replay_and_win_agree_witness:
  "comeOut False \<lparr>dice = [1, 1] @- sconst 1, out = []\<rparr> = (2, \<lparr>dice = sconst 1, out = []\<rparr>) \<and>
   map_option fst (playToReplay False \<lparr>dice = [1, 1] @- sconst 1, out = []\<rparr>) = Some True \<and>
   map_option fst (playToWin False \<lparr>dice = [1, 1] @- sconst 1, out = []\<rparr>) = Some False \<and>
   comeOut False \<lparr>dice = [3, 4] @- sconst 1, out = []\<rparr> = (7, \<lparr>dice = sconst 1, out = []\<rparr>) \<and>
   map_option fst (playToReplay False \<lparr>dice = [3, 4] @- sconst 1, out = []\<rparr>) = Some False \<and>
   map_option fst (playToWin False \<lparr>dice = [3, 4] @- sconst 1, out = []\<rparr>) = Some True \<and>
   comeOut False \<lparr>dice = [2, 2, 2, 3, 1, 3] @- sconst 1, out = []\<rparr> =
     (4, \<lparr>dice = [2, 3, 1, 3] @- sconst 1, out = []\<rparr>) \<and>
   map_option fst (point 4 False \<lparr>dice = [2, 3, 1, 3] @- sconst 1, out = []\<rparr>) = Some True \<and>
   map_option fst (playToReplay False \<lparr>dice = [2, 2, 2, 3, 1, 3] @- sconst 1, out = []\<rparr>) = Some True \<and>
   map_option fst (playToWin False \<lparr>dice = [2, 2, 2, 3, 1, 3] @- sconst 1, out = []\<rparr>) = Some True"
proof -
  let ?wa = "\<lparr>dice = [1, 1] @- sconst 1, out = []\<rparr>"
  let ?wb = "\<lparr>dice = [3, 4] @- sconst 1, out = []\<rparr>"
  let ?wc = "\<lparr>dice = [2, 2, 2, 3, 1, 3] @- sconst 1, out = []\<rparr>"
  let ?wc1 = "\<lparr>dice = [2, 3, 1, 3] @- sconst 1, out = []\<rparr>"
  have a: "comeOut False ?wa = (2, \<lparr>dice = sconst 1, out = []\<rparr>)"
    by (simp add: comeOut_eq roll_sum_def)
  have b: "comeOut False ?wb = (7, \<lparr>dice = sconst 1, out = []\<rparr>)"
    by (simp add: comeOut_eq roll_sum_def)
  have c: "comeOut False ?wc = (4, ?wc1)"
    by (simp add: comeOut_eq roll_sum_def)
  have p: "map_option fst (point 4 False ?wc1) = Some True"
    by (simp add: point_def roll2_def randint_def point_loop.simps)
  from replay_and_win_agree[OF a]
  have ra: "map_option fst (playToReplay False ?wa) = Some True \<and>
            map_option fst (playToWin False ?wa) = Some False"
    by simp
  from replay_and_win_agree[OF b]
  have rb: "map_option fst (playToReplay False ?wb) = Some False \<and>
            map_option fst (playToWin False ?wb) = Some True"
    by simp
  from replay_and_win_agree[OF c]
  have rc: "map_option fst (playToReplay False ?wc) = map_option fst (point 4 False ?wc1) \<and>
            map_option fst (playToWin False ?wc) = map_option fst (point 4 False ?wc1)"
    by simp
  show ?thesis
    using a b c p ra rb rc by simp
qed

subsection \<open>The verbose flag\<close>

lemma playToReplay_indep:
  "map_option (apsnd dice) (playToReplay v w) = map_option (apsnd dice) (playToReplay v' w)"
proof -
  have "map_option (apsnd dice) (playToReplay u w) =
        (if roll_sum (dice w) 0 = 7 \<or> roll_sum (dice w) 0 = 11
         then Some (False, stl (stl (dice w)))
         else if roll_sum (dice w) 0 = 2 \<or> roll_sum (dice w) 0 = 3 \<or> roll_sum (dice w) 0 = 12
         then Some (True, stl (stl (dice w)))
         else map_option (apsnd dice)
                (point (roll_sum (dice w) 0) False (w\<lparr>dice := stl (stl (dice w)), out := []\<rparr>)))" for u
    unfolding playToReplay_def comeOut_eq Let_def prod.case
    apply (simp only: if_distrib[of "map_option (apsnd dice)"] cong: if_cong)
    apply (subst bind_keeps_dice)
     apply (simp add: print_def)
    using point_indep[where target = "roll_sum (dice w) 0" and v = u
        and w = "w\<lparr>dice := stl (stl (dice w))\<rparr>" and v' = False and ?o2.0 = "[]"]
    apply (simp add: print_def)
    done
  then show ?thesis by simp
qed

text \<open>
  Claim C9. On one and the same generator, \<^verbatim>\<open>point\<close>, \<^verbatim>\<open>playToWin\<close> and
  \<^verbatim>\<open>playToReplay\<close> behave alike with \<open>verbose\<close> true and false: either both runs never
  return, or both return, with the same boolean and leaving the generator at the same place.
  Only the terminal differs.
\<close>

theorem verbose_changes_no_result:
  "map_option (apsnd dice) (point target True w) = map_option (apsnd dice) (point target False w) \<and>
   map_option (apsnd dice) (playToWin True w) = map_option (apsnd dice) (playToWin False w) \<and>
   map_option (apsnd dice) (playToReplay True w) = map_option (apsnd dice) (playToReplay False w)"
  using point_indep[where target = target and v = True and w = w and ?o1.0 = "out w"
      and v' = False and ?o2.0 = "out w"]
    playToWin_indep[of True w False] playToReplay_indep[of True w False]
  by simp

theorem verbose_changes_no_result_witness:
  "map_option (apsnd dice) (playToWin True \<lparr>dice = [2, 2, 2, 3, 1, 3] @- sconst 1, out = []\<rparr>) =
     Some (True, sconst 1) \<and>
   map_option (apsnd dice) (playToWin False \<lparr>dice = [2, 2, 2, 3, 1, 3] @- sconst 1, out = []\<rparr>) =
     Some (True, sconst 1) \<and>
   out (snd (the (playToWin True \<lparr>dice = [2, 2, 2, 3, 1, 3] @- sconst 1, out = []\<rparr>))) \<noteq>
   out (snd (the (playToWin False \<lparr>dice = [2, 2, 2, 3, 1, 3] @- sconst 1, out = []\<rparr>)))"
proof -
  let ?w = "\<lparr>dice = [2, 2, 2, 3, 1, 3] @- sconst 1, out = []\<rparr>"
  have f: "playToWin False ?w = Some (True, \<lparr>dice = sconst 1, out = []\<rparr>)"
    by (simp add: playToWin_def comeOut_def roll2_def randint_def point_def point_loop.simps)
  have t: "out (snd (the (playToWin True ?w))) \<noteq> []"
    by (simp add: playToWin_def comeOut_def roll2_def randint_def point_def point_loop.simps
        print_def)
  from verbose_changes_no_result[of 4 ?w]
  have "map_option (apsnd dice) (playToWin True ?w) = map_option (apsnd dice) (playToWin False ?w)"
    by (elim conjE)
  with f t show ?thesis by simp
qed

subsection \<open>The quotient of two integers\<close>

lemma bit_length_mono: "x \<le> y \<Longrightarrow> bit_length x \<le> bit_length y"
proof (induction y arbitrary: x rule: bit_length.induct)
  case (1 y)
  show ?case
  proof (cases "x = 0")
    case True
    then show ?thesis by (simp add: bit_length.simps)
  next
    case False
    with 1(2) have y: "y \<noteq> 0" by simp
    have "x div 2 \<le> y div 2" using 1(2) by (rule div_le_mono)
    from 1(1)[OF y this] show ?thesis
      using False y by (subst bit_length.simps, subst (2) bit_length.simps) simp
  qed
qed

lemma float_exponent_le_0: "x \<le> y \<Longrightarrow> float_exponent x y \<le> 0"
  using bit_length_mono[of x y] by (simp add: float_exponent_def Let_def)

lemma nearest_integer:
  fixes n d :: nat
  assumes "0 < d"
  defines "m \<equiv> (if 2 * (n mod d) < d \<or> (2 * (n mod d) = d \<and> even (n div d))
                 then n div d else n div d + 1)"
  shows "\<bar>(of_nat m :: rat) - of_nat n / of_nat d\<bar> \<le> 1 / 2"
proof -
  have "n = (n div d) * d + n mod d" by simp
  then have "(of_nat n :: rat) = of_nat ((n div d) * d + n mod d)" by simp
  then have n: "(of_nat n :: rat) = of_nat (n div d) * of_nat d + of_nat (n mod d)"
    by (simp only: of_nat_add of_nat_mult)
  have d: "(0::rat) < of_nat d" using assms(1) by simp
  have q: "(of_nat n :: rat) / of_nat d = of_nat (n div d) + of_nat (n mod d) / of_nat d"
    using d by (simp add: n add_divide_distrib)
  have r0: "(0::rat) \<le> of_nat (n mod d) / of_nat d" by simp
  show ?thesis
  proof (cases "2 * (n mod d) < d \<or> (2 * (n mod d) = d \<and> even (n div d))")
    case True
    then have "2 * (n mod d) \<le> d" by auto
    then have "(of_nat (2 * (n mod d)) :: rat) \<le> of_nat d" by (simp only: of_nat_le_iff)
    then have h: "(of_nat (n mod d) :: rat) / of_nat d \<le> 1 / 2"
      using d by (simp add: field_simps)
    from True have "m = n div d" by (simp add: m_def)
    then have "(of_nat m :: rat) - of_nat n / of_nat d = - (of_nat (n mod d) / of_nat d)"
      by (simp add: q)
    with h r0 show ?thesis by linarith
  next
    case False
    then have "d \<le> 2 * (n mod d)" by auto
    then have "(of_nat d :: rat) \<le> of_nat (2 * (n mod d))" by (simp only: of_nat_le_iff)
    then have h: "1 / 2 \<le> (of_nat (n mod d) :: rat) / of_nat d"
      using d by (simp add: field_simps)
    have "n mod d < d" using assms(1) by simp
    then have "(of_nat (n mod d) :: rat) < of_nat d" by (simp only: of_nat_less_iff)
    then have l: "(of_nat (n mod d) :: rat) / of_nat d < 1"
      using d by (simp add: field_simps)
    from False have "m = n div d + 1" by (simp add: m_def)
    then have "(of_nat m :: rat) - of_nat n / of_nat d = 1 - of_nat (n mod d) / of_nat d"
      by (simp add: q)
    with h l show ?thesis by linarith
  qed
qed

lemma round_quotient_near:
  assumes "0 < y" and "x \<le> y"
  shows "\<bar>round_quotient x y - of_nat x / of_nat y\<bar> \<le> 1 / 2 ^ 53"
proof -
  define e where "e = max (float_exponent x y) (- 1022)"
  define k where "k = nat (52 - e)"
  have e: "e \<le> 0" using float_exponent_le_0[OF assms(2)] by (simp add: e_def)
  then have s: "nat (e - 52) = 0" "nat (- (e - 52)) = k" by (simp_all add: k_def)
  have k: "52 \<le> k" using e by (simp add: k_def)
  define n where "n = x * 2 ^ k"
  define m where "m = (if 2 * (n mod y) < y \<or> (2 * (n mod y) = y \<and> even (n div y))
                       then n div y else n div y + 1)"
  have rq: "round_quotient x y = of_nat m / 2 ^ k"
    unfolding round_quotient_def Let_def e_def[symmetric] s
    by (simp add: m_def n_def)
  have near: "\<bar>(of_nat m :: rat) - of_nat n / of_nat y\<bar> \<le> 1 / 2"
    unfolding m_def by (rule nearest_integer[OF assms(1)])
  have xy: "(of_nat x :: rat) / of_nat y = (of_nat n / of_nat y) / 2 ^ k"
    by (simp add: n_def)
  have "round_quotient x y - of_nat x / of_nat y =
        ((of_nat m :: rat) - of_nat n / of_nat y) / 2 ^ k"
    unfolding rq xy by (simp only: diff_divide_distrib)
  then have "\<bar>round_quotient x y - of_nat x / of_nat y\<bar> =
        \<bar>(of_nat m :: rat) - of_nat n / of_nat y\<bar> / 2 ^ k"
    by (simp add: abs_divide)
  also have "\<dots> \<le> (1 / 2) / 2 ^ k"
    by (rule divide_right_mono[OF near]) simp
  also have "\<dots> \<le> (1 / 2) / 2 ^ 52"
  proof -
    have "(2::rat) ^ 52 \<le> 2 ^ k" using k by (rule power_increasing) simp
    then show ?thesis by (simp add: frac_le)
  qed
  also have "\<dots> = 1 / 2 ^ 53" by simp
  finally show ?thesis .
qed

lemma round_quotient_no_overflow:
  assumes "0 < y" and "x \<le> y"
  shows "\<not> 2 ^ 1024 \<le> round_quotient x y"
proof -
  have "(of_nat x :: rat) \<le> of_nat y" using assms(2) by (simp only: of_nat_le_iff)
  then have "(of_nat x :: rat) / of_nat y \<le> 1" using assms(1) by (simp add: field_simps)
  moreover have "(1::rat) / 2 ^ 53 \<le> 1" by simp
  ultimately have "round_quotient x y \<le> 2"
    using round_quotient_near[OF assms] by linarith
  moreover have "(2::rat) ^ 1 < 2 ^ 1024" by (rule power_strict_increasing) simp_all
  ultimately show ?thesis by simp
qed

lemma round_quotient_zero: "round_quotient 0 y = 0"
  by (auto simp add: round_quotient_def Let_def)

lemma truediv_fraction:
  assumes "0 \<le> a" and "a \<le> b" and "0 < b"
  shows "truediv a b = Inr (Float False (round_quotient (nat a) (nat b)))"
proof -
  have "\<not> 2 ^ 1024 \<le> round_quotient (nat a) (nat b)"
    using assms by (intro round_quotient_no_overflow) simp_all
  with assms show ?thesis
    by (simp add: truediv_def Let_def)
qed

lemma truediv_zero: "b \<noteq> 0 \<Longrightarrow> truediv 0 b = Inr (Float (b < 0) 0)"
  by (simp add: truediv_def Let_def round_quotient_zero)

subsection \<open>The odds over many games\<close>

lemma games_length: "games n w = Some (rs, w') \<Longrightarrow> length rs = n"
proof (induction n arbitrary: w rs w')
  case 0
  then show ?case by simp
next
  case (Suc n)
  from Suc.prems obtain win w1 rs1 w2 where
    "playToWin False w = Some (win, w1)" and g: "games n w1 = Some (rs1, w2)"
    and "rs = win # rs1"
    by (auto simp: bind_eq_Some_conv)
  with Suc.IH[OF g] show ?case by simp
qed

lemma odds_loop_games:
  "odds_loop n wins w =
   map_option (\<lambda>(rs, w'). (wins + int (length (filter (\<lambda>r. r = True) rs)), w')) (games n w)"
proof (induction n arbitrary: wins w)
  case 0
  show ?case by simp
next
  case (Suc n)
  show ?case
  proof (cases "playToWin False w")
    case None
    then show ?thesis by simp
  next
    case (Some a)
    obtain win w1 where a: "a = (win, w1)" by (cases a)
    show ?thesis
      by (cases "games n w1") (auto simp: Some a Suc.IH)
  qed
qed

lemma computeOdds_games:
  "computeOdds N w =
     map_option
       (\<lambda>(rs, w').
          case truediv (int (length (filter (\<lambda>r. r = True) rs))) N of
            Inl e \<Rightarrow> (Inl e, w')
          | Inr odds \<Rightarrow>
              (Inr odds,
               w'\<lparr>out := out w' @
                    [[Str (newline # ''Out of''), Num N, Str ''games:''],
                     [Str (tab # ''Wins:''), Num (int (length (filter (\<lambda>r. r = True) rs)))],
                     [Str (tab # ''Odds:''), Flt odds]]\<rparr>))
       (games (nat N) w)"
proof (cases "games (nat N) w")
  case None
  then show ?thesis
    by (simp add: computeOdds_def odds_loop_games)
next
  case (Some a)
  obtain rs w' where a: "a = (rs, w')" by (cases a)
  show ?thesis
    by (simp add: computeOdds_def odds_loop_games Some a print_def split: sum.split)
qed

lemma computeOdds_positive:
  assumes "0 < N"
  shows "computeOdds N w =
         map_option
           (\<lambda>(rs, w').
              (Inr (Float False (round_quotient (length (filter (\<lambda>r. r = True) rs)) (nat N))),
               w'\<lparr>out := out w' @
                    [[Str (newline # ''Out of''), Num N, Str ''games:''],
                     [Str (tab # ''Wins:''), Num (int (length (filter (\<lambda>r. r = True) rs)))],
                     [Str (tab # ''Odds:''),
                      Flt (Float False
                             (round_quotient (length (filter (\<lambda>r. r = True) rs)) (nat N)))]]\<rparr>))
           (games (nat N) w)"
proof (cases "games (nat N) w")
  case None
  then show ?thesis
    by (simp add: computeOdds_games)
next
  case (Some a)
  obtain rs w' where a: "a = (rs, w')" by (cases a)
  have "length (filter (\<lambda>r. r = True) rs) \<le> length rs"
    by (rule length_filter_le)
  moreover have "length rs = nat N"
    using Some a by (simp add: games_length)
  ultimately have le: "int (length (filter (\<lambda>r. r = True) rs)) \<le> N"
    using assms by linarith
  have "truediv (int (length (filter (\<lambda>r. r = True) rs))) N =
        Inr (Float False (round_quotient (length (filter (\<lambda>r. r = True) rs)) (nat N)))"
    using truediv_fraction[OF _ le assms] by simp
  then show ?thesis
    by (simp add: computeOdds_games Some a)
qed

text \<open>
  Claim C5. For a positive number of games \<open>N\<close>, \<^verbatim>\<open>computeOdds\<close> plays \<open>N\<close> silent games
  one after the other. If one of them never ends, neither does \<^verbatim>\<open>computeOdds\<close>.
  Otherwise, with \<open>wins\<close> the number of those \<open>N\<close> calls of \<^verbatim>\<open>playToWin\<close> that returned
  true, \<open>0 \<le> wins \<le> N\<close>, and \<^verbatim>\<open>computeOdds\<close> prints \<open>N\<close>, \<open>wins\<close> and the quotient, and
  returns the quotient: the float that Python's \<^verbatim>\<open>wins / N\<close> is, which is not negative and
  lies within \<open>2 ^ - 53\<close> of the fraction \<open>wins / N\<close>.
\<close>

theorem computeOdds_counts_wins:
  assumes "0 < N"
  shows "case games (nat N) w of
           None \<Rightarrow> computeOdds N w = None
         | Some (rs, w') \<Rightarrow>
             (let wins = length (filter (\<lambda>r. r = True) rs);
                  odds = Float False (round_quotient wins (nat N)) in
                length rs = nat N \<and> 0 \<le> int wins \<and> int wins \<le> N \<and>
                truediv (int wins) N = Inr odds \<and>
                \<bar>magnitude odds - of_nat wins / of_int N\<bar> \<le> 1 / 2 ^ 53 \<and>
                computeOdds N w =
                  Some (Inr odds,
                        w'\<lparr>out := out w' @
                             [[Str (newline # ''Out of''), Num N, Str ''games:''],
                              [Str (tab # ''Wins:''), Num (int wins)],
                              [Str (tab # ''Odds:''), Flt odds]]\<rparr>))"
proof (cases "games (nat N) w")
  case None
  then show ?thesis
    by (simp add: computeOdds_positive[OF assms])
next
  case (Some a)
  obtain rs w' where a: "a = (rs, w')" by (cases a)
  let ?wins = "length (filter (\<lambda>r. r = True) rs)"
  have len: "length rs = nat N"
    using Some a by (simp add: games_length)
  have "?wins \<le> length rs"
    by (rule length_filter_le)
  with len assms have le: "int ?wins \<le> N" and le': "?wins \<le> nat N"
    by linarith+
  have t: "truediv (int ?wins) N = Inr (Float False (round_quotient ?wins (nat N)))"
    using truediv_fraction[OF _ le assms] by simp
  have "\<bar>round_quotient ?wins (nat N) - of_nat ?wins / of_nat (nat N)\<bar> \<le> 1 / 2 ^ 53"
    using assms le' by (intro round_quotient_near) simp_all
  moreover have "(of_nat (nat N) :: rat) = of_int N"
    using assms by simp
  ultimately have near: "\<bar>round_quotient ?wins (nat N) - of_nat ?wins / of_int N\<bar> \<le> 1 / 2 ^ 53"
    by simp
  have c: "computeOdds N w =
          Some (Inr (Float False (round_quotient ?wins (nat N))),
                w'\<lparr>out := out w' @
                     [[Str (newline # ''Out of''), Num N, Str ''games:''],
                      [Str (tab # ''Wins:''), Num (int ?wins)],
                      [Str (tab # ''Odds:''), Flt (Float False (round_quotient ?wins (nat N)))]]\<rparr>)"
    by (simp add: computeOdds_positive[OF assms] Some a)
  from len le t near c show ?thesis
    by (simp add: Some a Let_def)
qed

theorem computeOdds_counts_wins_witness:
  "(0::int) < 3 \<and>
   games (nat 3) \<lparr>dice = [3, 4, 1, 1, 1, 2] @- sconst 1, out = []\<rparr> =
     Some ([True, False, False], \<lparr>dice = sconst 1, out = []\<rparr>) \<and>
   \<bar>(6004799503160661 / 18014398509481984 :: rat) - 1 / 3\<bar> \<le> 1 / 2 ^ 53 \<and>
   computeOdds 3 \<lparr>dice = [3, 4, 1, 1, 1, 2] @- sconst 1, out = []\<rparr> =
     Some (Inr (Float False (6004799503160661 / 18014398509481984)),
           \<lparr>dice = sconst 1,
            out = [[Str (newline # ''Out of''), Num 3, Str ''games:''],
                   [Str (tab # ''Wins:''), Num 1],
                   [Str (tab # ''Odds:''),
                    Flt (Float False (6004799503160661 / 18014398509481984))]]\<rparr>)"
proof -
  let ?w = "\<lparr>dice = [3, 4, 1, 1, 1, 2] @- sconst 1, out = []\<rparr>"
  have h: "(0::int) < 3" by simp
  have g: "games (nat 3) ?w = Some ([True, False, False], \<lparr>dice = sconst 1, out = []\<rparr>)"
    by (simp add: eval_nat_numeral playToWin_def comeOut_def roll2_def randint_def)
  have r: "round_quotient (Suc 0) 3 = 6004799503160661 / 18014398509481984"
    by (simp add: round_quotient_def float_exponent_def bit_length.simps Let_def)
  note t = computeOdds_counts_wins[OF h, of ?w, unfolded g]
  from t have "\<bar>(6004799503160661 / 18014398509481984 :: rat) - 1 / 3\<bar> \<le> 1 / 2 ^ 53 \<and>
     computeOdds 3 ?w =
     Some (Inr (Float False (6004799503160661 / 18014398509481984)),
           \<lparr>dice = sconst 1,
            out = [[Str (newline # ''Out of''), Num 3, Str ''games:''],
                   [Str (tab # ''Wins:''), Num 1],
                   [Str (tab # ''Odds:''),
                    Flt (Float False (6004799503160661 / 18014398509481984))]]\<rparr>)"
    by (simp add: Let_def r)
  with g show ?thesis by simp
qed

subsection \<open>A game count that is zero or negative\<close>

text \<open>
  Claim C6 says that \<^verbatim>\<open>computeOdds\<close> rejects a zero or negative count with an error of
  its own and a message. It does not. With the count 0 no game is played and the division
  raises Python's \<^verbatim>\<open>ZeroDivisionError\<close>, with nothing printed; with the count \<open>-3\<close> no
  game is played either and the call completes, reporting no win and returning
  \<^verbatim>\<open>-0.0\<close>.
\<close>

theorem computeOdds_degenerate_counterexample:
  "computeOdds 0 \<lparr>dice = sconst 1, out = []\<rparr> =
     Some (Inl ZeroDivisionError, \<lparr>dice = sconst 1, out = []\<rparr>) \<and>
   computeOdds (- 3) \<lparr>dice = sconst 1, out = []\<rparr> =
     Some (Inr (Float True 0),
           \<lparr>dice = sconst 1,
            out = [[Str (newline # ''Out of''), Num (- 3), Str ''games:''],
                   [Str (tab # ''Wins:''), Num 0],
                   [Str (tab # ''Odds:''), Flt (Float True 0)]]\<rparr>)"
  by (simp add: computeOdds_def truediv_def round_quotient_zero print_def)

text \<open>
  Claim C6, amended. \<^verbatim>\<open>computeOdds\<close> has no check of its argument. Called with 0 it
  plays no game and raises \<^verbatim>\<open>ZeroDivisionError\<close> from the division, before it prints
  anything. Called with a negative count it plays no game, prints the count, no win and the
  quotient \<^verbatim>\<open>-0.0\<close>, and returns that zero.
\<close>

theorem computeOdds_without_games:
  assumes "N \<le> 0"
  shows "computeOdds N w =
         (if N = 0 then Some (Inl ZeroDivisionError, w)
          else Some (Inr (Float True 0),
                     w\<lparr>out := out w @
                          [[Str (newline # ''Out of''), Num N, Str ''games:''],
                           [Str (tab # ''Wins:''), Num 0],
                           [Str (tab # ''Odds:''), Flt (Float True 0)]]\<rparr>))"
proof (cases "N = 0")
  case True
  then show ?thesis
    by (simp add: computeOdds_def truediv_def)
next
  case False
  with assms have "N < 0" by simp
  with False show ?thesis
    by (simp add: computeOdds_def truediv_zero print_def)
qed

theorem computeOdds_without_games_witness:
  "(0::int) \<le> 0 \<and> (- 1::int) \<le> 0 \<and>
   computeOdds 0 \<lparr>dice = sconst 2, out = []\<rparr> =
     Some (Inl ZeroDivisionError, \<lparr>dice = sconst 2, out = []\<rparr>) \<and>
   computeOdds (- 1) \<lparr>dice = sconst 2, out = []\<rparr> =
     Some (Inr (Float True 0),
           \<lparr>dice = sconst 2,
            out = [[Str (newline # ''Out of''), Num (- 1), Str ''games:''],
                   [Str (tab # ''Wins:''), Num 0],
                   [Str (tab # ''Odds:''), Flt (Float True 0)]]\<rparr>)"
proof -
  have a: "(0::int) \<le> 0" and b: "(- 1::int) \<le> 0" by simp_all
  show ?thesis
    using computeOdds_without_games[OF a, of "\<lparr>dice = sconst 2, out = []\<rparr>"]
      computeOdds_without_games[OF b, of "\<lparr>dice = sconst 2, out = []\<rparr>"]
    by simp
qed

subsection \<open>Arguments of the command line\<close>

lemma int_of_str_examples:
  "int_of_str '' -1_000 '' = Inr (- 1000)"
  "int_of_str ''+007'' = Inr 7"
  "int_of_str [CHR 0xA0, CHR ''2'', CHR 0x85] = Inr 2"
  "int_of_str [CHR 0x1C, CHR ''2''] = Inl ValueError"
  "int_of_str [CHR ''5'', CHR 0x1F] = Inl ValueError"
  "int_of_str ''1__0'' = Inl ValueError"
  "int_of_str ''- 5'' = Inl ValueError"
  "int_of_str '''' = Inl ValueError"
  by (simp_all add: int_of_str_def strip_def isspace_def digit_def int_max_str_digits_def)

lemma int_of_str_digit_limit:
  assumes "int_of_str s = Inr n"
  shows "length (filter (\<lambda>c. c \<noteq> CHR ''_'') (strip s)) \<le> Suc int_max_str_digits"
  using assms
  by (auto simp add: int_of_str_def Let_def split: list.splits if_splits option.splits)




text \<open>
  Claim C8. Started with the one argument \<^verbatim>\<open>odds\<close>, the program runs
  \<^verbatim>\<open>computeOdds\<close> with the count 1000: it behaves as \<^verbatim>\<open>computeOdds 1000\<close> does, its
  result dropped, which is to play 1000 silent games and report them as 1000.
\<close>

theorem main_odds_default_is_1000:
  "main [prog, ''odds''] w =
     map_option (\<lambda>(r, w1). (map_sum id (\<lambda>odds. ()) r, w1)) (computeOdds 1000 w) \<and>
   main [prog, ''odds''] w =
     map_option
       (\<lambda>(rs, w').
          (Inr (),
           w'\<lparr>out := out w' @
                [[Str (newline # ''Out of''), Num 1000, Str ''games:''],
                 [Str (tab # ''Wins:''), Num (int (length (filter (\<lambda>r. r = True) rs)))],
                 [Str (tab # ''Odds:''),
                  Flt (Float False
                         (round_quotient (length (filter (\<lambda>r. r = True) rs)) 1000))]]\<rparr>))
       (games 1000 w)"
proof -
  have m: "main [prog, ''odds''] w =
     map_option (\<lambda>(r, w1). (map_sum id (\<lambda>odds. ()) r, w1)) (computeOdds 1000 w)"
    by (simp add: main_def)
  have p: "(0::int) < 1000" by simp
  show ?thesis
    unfolding m computeOdds_positive[OF p]
    by (cases "games 1000 w") (auto simp: split_beta)
qed

end
